theory Spec2Isabelle
  imports Main
begin

section \<open>Data model of \<open>wrappers/document_revision.py\<close>\<close>

text \<open>
  \<open>documentai.Document.Provenance.OperationType\<close>, bound to \<open>_OP_TYPE\<close> in the
  source. \<open>op_name\<close> is the enum member's \<open>.name\<close>.
\<close>

datatype OperationType =
  OPERATION_TYPE_UNSPECIFIED | ADD | REMOVE | REPLACE
  | EVAL_REQUESTED | EVAL_APPROVED | EVAL_SKIPPED | UPDATE

fun op_name :: "OperationType \<Rightarrow> string" where
  "op_name OPERATION_TYPE_UNSPECIFIED = ''OPERATION_TYPE_UNSPECIFIED''"
| "op_name ADD = ''ADD''"
| "op_name REMOVE = ''REMOVE''"
| "op_name REPLACE = ''REPLACE''"
| "op_name EVAL_REQUESTED = ''EVAL_REQUESTED''"
| "op_name EVAL_APPROVED = ''EVAL_APPROVED''"
| "op_name EVAL_SKIPPED = ''EVAL_SKIPPED''"
| "op_name UPDATE = ''UPDATE''"

text \<open>The exceptions the modelled code can raise.\<close>

datatype error = IndexError | ValueError | OverflowError

text \<open>
  The protobuf message \<open>documentai.Document.Entity\<close>, restricted to the fields the
  source reads. A name cannot end in an underscore here and \<open>id\<close> is taken, so the
  source's \<open>e.type_\<close> is \<open>type'\<close>, \<open>e.id\<close> is \<open>id'\<close> and \<open>e.provenance.type_\<close>
  is \<open>provenance_type'\<close>.

  A Python \<open>str\<close> that the source only stores, copies and compares is a \<open>string\<close>.
  The source parses \<open>e.id\<close> with \<open>int\<close>, which reads Unicode code points, so this
  field is the list of its code points, the type \<open>str\<close>.
\<close>

type_synonym str = "nat list"

record documentai_Entity =
  type' :: string
  mention_text :: string
  id' :: str
  provenance_type' :: OperationType

text \<open>
  The wrapper class \<open>Entity\<close> of \<open>wrappers/entity.py\<close>. The source reads
  \<open>entity.type_\<close> and \<open>entity.mention_text\<close> from it; the fields carry the prefix
  \<open>ent_\<close> to keep them apart from the protobuf message's.
\<close>

record Entity =
  ent_type' :: string
  ent_mention_text :: string

text \<open>
  Modelled from the spec: the constructor \<open>Entity(documentai_entity=e)\<close> of
  \<open>wrappers/entity.py\<close>, which is not part of the source at hand. The spec: "construct
  a new Entity from the operation's payload".
\<close>

definition Entity_init :: "documentai_Entity \<Rightarrow> Entity" where
  "Entity_init e = \<lparr>ent_type' = type' e, ent_mention_text = mention_text e\<rparr>"

text \<open>
  Modelled from the spec: the method \<open>Entity.replace(documentai_entity=e)\<close> of
  \<open>wrappers/entity.py\<close>, which is not part of the source at hand. The spec: "overwrites
  the targeted entity's kind/text with the payload's kind/text in place".
\<close>

definition replace :: "Entity \<Rightarrow> documentai_Entity \<Rightarrow> Entity" where
  "replace entity e = entity\<lparr>ent_type' := type' e, ent_mention_text := mention_text e\<rparr>"

text \<open>
  One dictionary of the \<open>history\<close> list. The keys \<open>replace_type\<close> and
  \<open>replace_text\<close> exist only in the entries of a REPLACE.
\<close>

record history_entry =
  object :: string
  entity_provenance_type :: string
  original_entity :: documentai_Entity
  original_type :: string
  original_text :: string
  replace_type :: "string option"
  replace_text :: "string option"

section \<open>Python primitives used by the source\<close>

text \<open>
  \<open>code_points\<close> gives the code points of a string of Latin-1 characters; the examples
  write an id with it.
\<close>

definition code_points :: "string \<Rightarrow> str" where
  "code_points s = map of_char s"

text \<open>
  \<open>int(s)\<close> on a \<open>str\<close>, base 10, as CPython 3.11 computes it
  (\<open>PyLong_FromUnicodeObject\<close> and \<open>PyLong_FromString\<close>), with its Unicode database
  14.0.0 and the default digit limit, \<open>sys.get_int_max_str_digits() = 4300\<close>.

  Whitespace before and after the number is skipped. \<open>is_space\<close> is the whitespace
  that \<open>int\<close> skips: the ASCII blanks 9 to 13 and 32, and the Unicode whitespace from
  code point 127 on. The separators 28 to 31 are whitespace for \<open>str.isspace\<close> but not
  for \<open>int\<close>, which raises on them.

  A digit is an ASCII digit or, from code point 127 on, a decimal digit (category Nd) of
  another script; \<open>decimal_zeros\<close> lists the digit zero of each of these scripts, the
  digits one to nine following it.

  One sign may precede the digits, and single underscores may separate digits. More than
  4300 digits, or anything else, raises ValueError, which is \<open>None\<close> here.
\<close>

definition is_space :: "nat \<Rightarrow> bool" where
  "is_space c =
     ((9 \<le> c \<and> c \<le> 13) \<or> c = 32 \<or> c = 0x85 \<or> c = 0xA0 \<or> c = 0x1680
      \<or> (0x2000 \<le> c \<and> c \<le> 0x200A) \<or> c = 0x2028 \<or> c = 0x2029 \<or> c = 0x202F
      \<or> c = 0x205F \<or> c = 0x3000)"

definition decimal_zeros :: "nat list" where
  "decimal_zeros =
     [0x660, 0x6F0, 0x7C0, 0x966, 0x9E6, 0xA66, 0xAE6, 0xB66,
      0xBE6, 0xC66, 0xCE6, 0xD66, 0xDE6, 0xE50, 0xED0, 0xF20,
      0x1040, 0x1090, 0x17E0, 0x1810, 0x1946, 0x19D0, 0x1A80, 0x1A90,
      0x1B50, 0x1BB0, 0x1C40, 0x1C50, 0xA620, 0xA8D0, 0xA900, 0xA9D0,
      0xA9F0, 0xAA50, 0xABF0, 0xFF10, 0x104A0, 0x10D30, 0x11066, 0x110F0,
      0x11136, 0x111D0, 0x112F0, 0x11450, 0x114D0, 0x11650, 0x116C0, 0x11730,
      0x118E0, 0x11950, 0x11C50, 0x11D50, 0x11DA0, 0x16A60, 0x16AC0, 0x16B50,
      0x1D7CE, 0x1D7D8, 0x1D7E2, 0x1D7EC, 0x1D7F6, 0x1E140, 0x1E2F0, 0x1E950,
      0x1FBF0]"

definition digit_val :: "nat \<Rightarrow> nat option" where
  "digit_val c =
     (if c < 127 then (if 48 \<le> c \<and> c \<le> 57 then Some (c - 48) else None)
      else map_option (\<lambda>z. c - z) (find (\<lambda>z. z \<le> c \<and> c < z + 10) decimal_zeros))"

text \<open>
  The digits and underscores after the sign: \<open>acc\<close> is the value so far and
  \<open>after_digit\<close> tells whether the character before is a digit. Code point 95 is the
  underscore.
\<close>

fun digits_value :: "nat \<Rightarrow> bool \<Rightarrow> str \<Rightarrow> nat option" where
  "digits_value acc after_digit [] = (if after_digit then Some acc else None)"
| "digits_value acc after_digit (c # cs) =
     (if c = 95 then (if after_digit then digits_value acc False cs else None)
      else case digit_val c of
             None \<Rightarrow> None
           | Some v \<Rightarrow> digits_value (10 * acc + v) True cs)"

definition strip :: "str \<Rightarrow> str" where
  "strip s = rev (dropWhile is_space (rev (dropWhile is_space s)))"

text \<open>Code point 45 is the minus sign and 43 the plus sign.\<close>

definition py_int :: "str \<Rightarrow> int option" where
  "py_int s =
     (case strip s of
        [] \<Rightarrow> None
      | c # cs \<Rightarrow>
          if 4300 < length (filter (\<lambda>d. d \<noteq> 95) (if c = 45 \<or> c = 43 then cs else c # cs))
          then None
          else if c = 45 then map_option (\<lambda>n. - int n) (digits_value 0 False cs)
          else if c = 43 then map_option int (digits_value 0 False cs)
          else map_option int (digits_value 0 False (c # cs)))"

text \<open>
  Python's index normalisation for a list of length \<open>n\<close>: a negative index counts from
  the end; what is still outside \<open>0..n-1\<close> raises IndexError (\<open>None\<close> here). The
  subscript \<open>xs[i]\<close> raises IndexError also for an \<open>i\<close> too large for a \<open>Py_ssize_t\<close>,
  so this is all of the subscript.
\<close>

definition py_index :: "nat \<Rightarrow> int \<Rightarrow> nat option" where
  "py_index n i =
     (let j = (if i < 0 then i + int n else i)
      in if 0 \<le> j \<and> j < int n then Some (nat j) else None)"

text \<open>
  \<open>sys.maxsize\<close>, the largest \<open>Py_ssize_t\<close>, on a 64-bit build of CPython.
\<close>

definition PY_SSIZE_T_MAX :: int where
  "PY_SSIZE_T_MAX = 2 ^ 63 - 1"

text \<open>
  \<open>xs.pop(i)\<close>: the removed element and the remaining list. The argument is converted
  to a \<open>Py_ssize_t\<close> before the list is looked at, and an int outside that type raises
  OverflowError; an index outside the list raises IndexError.
\<close>

definition list_pop :: "'a list \<Rightarrow> int \<Rightarrow> error + ('a \<times> 'a list)" where
  "list_pop xs i =
     (if i < - PY_SSIZE_T_MAX - 1 \<or> PY_SSIZE_T_MAX < i then Inl OverflowError
      else case py_index (length xs) i of
             None \<Rightarrow> Inl IndexError
           | Some j \<Rightarrow> Inr (xs ! j, take j xs @ drop (Suc j) xs))"

section \<open>\<open>_modify_docproto\<close>\<close>

text \<open>
  The two local lists of \<open>_modify_docproto\<close>, \<open>entities_array\<close> and \<open>history\<close>.
  One pass of the loop body is \<open>modify_step\<close>. When the body raises, the result is
  \<open>Inl\<close> of the exception together with the two lists as they are at that moment.
\<close>

type_synonym locals = "Entity list \<times> history_entry list"

definition modify_step :: "locals \<Rightarrow> documentai_Entity \<Rightarrow> (error \<times> locals) + locals" where
  "modify_step st e =
     (case st of (entities_array, history) \<Rightarrow>
        if provenance_type' e = ADD \<or> provenance_type' e = OPERATION_TYPE_UNSPECIFIED then
          Inr (entities_array @ [Entity_init e],
               history @ [\<lparr>object = ''Entity'',
                            entity_provenance_type = op_name (provenance_type' e),
                            original_entity = e,
                            original_type = type' e,
                            original_text = mention_text e,
                            replace_type = None,
                            replace_text = None\<rparr>])
        else if provenance_type' e = REMOVE then
          (case py_int (id' e) of
             None \<Rightarrow> Inl (ValueError, st)
           | Some t \<Rightarrow>
               (case list_pop entities_array (t - 1) of
                  Inl err \<Rightarrow> Inl (err, st)
                | Inr (entity, entities_array') \<Rightarrow>
                    Inr (entities_array',
                         history @ [\<lparr>object = ''Entity'',
                                      entity_provenance_type = op_name (provenance_type' e),
                                      original_entity = e,
                                      original_type = ent_type' entity,
                                      original_text = ent_mention_text entity,
                                      replace_type = None,
                                      replace_text = None\<rparr>])))
        else if provenance_type' e = REPLACE then
          (let history' = history @ [\<lparr>object = ''Entity'',
                                       entity_provenance_type = op_name (provenance_type' e),
                                       original_entity = e,
                                       original_type = type' e,
                                       original_text = mention_text e,
                                       replace_type = Some (type' e),
                                       replace_text = Some (mention_text e)\<rparr>]
           in case py_int (id' e) of
                None \<Rightarrow> Inl (ValueError, (entities_array, history'))
              | Some t \<Rightarrow>
                  (case py_index (length entities_array) (t - 1) of
                     None \<Rightarrow> Inl (IndexError, (entities_array, history'))
                   | Some j \<Rightarrow>
                       Inr (entities_array[j := replace (entities_array ! j) e], history')))
        else Inr st)"

fun modify_loop :: "locals \<Rightarrow> documentai_Entity list \<Rightarrow> (error \<times> locals) + locals" where
  "modify_loop st [] = Inr st"
| "modify_loop st (e # es) =
     (case modify_step st e of
        Inl x \<Rightarrow> Inl x
      | Inr st' \<Rightarrow> modify_loop st' es)"

definition modify_docproto :: "documentai_Entity list \<Rightarrow> error + locals" where
  "modify_docproto entities =
     (case modify_loop ([], []) entities of
        Inl (err, _) \<Rightarrow> Inl err
      | Inr st \<Rightarrow> Inr st)"

definition get_revised_documents :: "documentai_Entity list \<Rightarrow> error + locals" where
  "get_revised_documents revision_entities = modify_docproto revision_entities"

section \<open>Snapshots on the heap\<close>

text \<open>
  \<open>documentai.Document.Revision\<close> and \<open>documentai.Document\<close>, restricted to what the
  source reads: \<open>rev.revisions[0].id\<close> (field \<open>rev_id\<close>), \<open>rev.revisions[0].parent\<close>,
  \<open>revision.entities\<close>, and the text and pages of a base shard, which are carried along
  unread (\<open>text'\<close>, \<open>pages\<close>, a page being its serialised bytes).
\<close>

record Revision =
  rev_id :: string
  parent :: "int list"

record documentai_Document =
  text' :: string
  pages :: "string list"
  entities :: "documentai_Entity list"
  revisions :: "Revision list"

text \<open>
  The wrapper class \<open>Document\<close> of \<open>wrappers/document.py\<close>: the fields the source
  passes and assigns, \<open>shards\<close>, \<open>gcs_prefix\<close> and \<open>entities\<close>.
\<close>

record Document =
  shards :: "documentai_Document list"
  doc_gcs_prefix :: string
  doc_entities :: "Entity list"

text \<open>
  Modelled from the spec: the constructor \<open>Document(shards=..., gcs_prefix=...)\<close> of
  \<open>wrappers/document.py\<close>, which is not part of the source at hand. The spec: the root
  snapshot is created "from baseDocument with empty entities", the pages and text being
  "carried unchanged from the base document".
\<close>

definition Document_init :: "documentai_Document list \<Rightarrow> string \<Rightarrow> Document" where
  "Document_init shards_arg gcs_prefix_arg =
     \<lparr>shards = shards_arg, doc_gcs_prefix = gcs_prefix_arg, doc_entities = []\<rparr>"

text \<open>
  An object of the dataclass \<open>DocumentWithRevisions\<close>. \<open>next_\<close> and \<open>last\<close> refer to
  other objects, so they hold addresses (\<open>next'\<close>, \<open>last'\<close>; \<open>None\<close> is Python's None).
  \<open>root_revision\<close> is not a field of the object: the dataclass keeps its default as a
  class attribute, and the class method assigns to that attribute
  (\<open>cls_root_revision\<close> of the heap below).
\<close>

record DocumentWithRevisions =
  document :: Document
  revision_nodes :: "Revision list list"
  gcs_prefix :: string
  next' :: "nat option"
  last' :: "nat option"
  revision_id :: "string option"
  history :: "history_entry list"

definition DocumentWithRevisions_init ::
  "Document \<Rightarrow> Revision list list \<Rightarrow> string \<Rightarrow> DocumentWithRevisions" where
  "DocumentWithRevisions_init document_arg revision_nodes_arg gcs_prefix_arg =
     \<lparr>document = document_arg, revision_nodes = revision_nodes_arg,
      gcs_prefix = gcs_prefix_arg, next' = None, last' = None, revision_id = None,
      history = []\<rparr>"

text \<open>
  The store: the objects by address, the next free address, and the class attribute
  \<open>DocumentWithRevisions.root_revision\<close>. \<open>alloc\<close> is object construction, \<open>upd\<close> an
  attribute assignment on the object at an address.
\<close>

record heap =
  objs :: "nat \<Rightarrow> DocumentWithRevisions"
  nxt :: nat
  cls_root_revision :: "nat option"

definition alloc :: "DocumentWithRevisions \<Rightarrow> heap \<Rightarrow> nat \<times> heap" where
  "alloc obj s = (nxt s, s\<lparr>objs := (objs s)(nxt s := obj), nxt := Suc (nxt s)\<rparr>)"

definition upd :: "nat \<Rightarrow> (DocumentWithRevisions \<Rightarrow> DocumentWithRevisions) \<Rightarrow> heap \<Rightarrow> heap" where
  "upd a f s = s\<lparr>objs := (objs s)(a := f (objs s a))\<rparr>"

section \<open>\<open>DocumentWithRevisions.from_gcs_prefix_with_revisions\<close>\<close>

text \<open>
  The body of the loop \<open>for rev in revs\<close>, from the snapshot \<open>immutable_revision_doc\<close>
  of the previous pass to the one of this pass. \<open>copy.deepcopy\<close> of a value is the
  value. The statement \<open>immutable_revision_doc = immutable_revision_doc.next_\<close> reads
  back the reference stored two statements earlier, which is \<open>revision_doc\<close>. When the
  body raises, the result is \<open>Inl\<close> of the exception and the heap at that moment.
\<close>

definition revs_body ::
  "Document \<Rightarrow> Revision list list \<Rightarrow> string \<Rightarrow> documentai_Document \<Rightarrow> nat \<Rightarrow> heap
   \<Rightarrow> (error \<times> heap) + (nat \<times> heap)" where
  "revs_body immutable_doc revisions_arg gcs rev' immutable_revision_doc s =
     (let copied_doc = immutable_doc;
          d = Document_init (shards copied_doc) (doc_gcs_prefix copied_doc)
      in case get_revised_documents (entities rev') of
           Inl err \<Rightarrow> Inl (err, s)
         | Inr (revised_entities, history_list) \<Rightarrow>
             (let d = d\<lparr>doc_entities := revised_entities\<rparr>;
                  (revision_doc, s) = alloc (DocumentWithRevisions_init d revisions_arg gcs) s;
                  s = upd revision_doc (\<lambda>n. n\<lparr>history := history n @ history_list\<rparr>) s
              in case revisions rev' of
                   [] \<Rightarrow> Inl (IndexError, s)
                 | r0 # _ \<Rightarrow>
                     (let s = upd revision_doc (\<lambda>n. n\<lparr>revision_id := Some (rev_id r0)\<rparr>) s;
                          s = upd immutable_revision_doc (\<lambda>n. n\<lparr>next' := Some revision_doc\<rparr>) s;
                          s = upd revision_doc (\<lambda>n. n\<lparr>last' := Some immutable_revision_doc\<rparr>) s;
                          immutable_revision_doc = revision_doc;
                          s = (if parent r0 = []
                               then s\<lparr>cls_root_revision := Some immutable_revision_doc\<rparr>
                               else s)
                      in Inr (immutable_revision_doc, s))))"

fun revs_loop ::
  "Document \<Rightarrow> Revision list list \<Rightarrow> string \<Rightarrow> documentai_Document list \<Rightarrow> nat \<Rightarrow> heap
   \<Rightarrow> (error \<times> heap) + (nat \<times> heap)" where
  "revs_loop immutable_doc revisions_arg gcs [] immutable_revision_doc s =
     Inr (immutable_revision_doc, s)"
| "revs_loop immutable_doc revisions_arg gcs (rev' # revs) immutable_revision_doc s =
     (case revs_body immutable_doc revisions_arg gcs rev' immutable_revision_doc s of
        Inl x \<Rightarrow> Inl x
      | Inr (immutable_revision_doc, s) \<Rightarrow>
          revs_loop immutable_doc revisions_arg gcs revs immutable_revision_doc s)"

text \<open>
  The class method, from the point where its first statement has returned. That
  statement, \<open>_get_base_docproto(gcs_prefix)\<close>, reads the shards from remote storage;
  the two lists it returns, \<open>base_docproto\<close> and \<open>revs\<close>, are arguments here. When
  the call raises instead (a prefix that is not of the form \<open>gs://bucket/folder\<close>, or
  a failure of the storage client), the method raises before it has built anything.
\<close>

definition from_gcs_prefix_with_revisions ::
  "string \<Rightarrow> documentai_Document list \<Rightarrow> documentai_Document list \<Rightarrow> heap
   \<Rightarrow> (error \<times> heap) + (nat \<times> heap)" where
  "from_gcs_prefix_with_revisions gcs base_docproto revs s =
     (let revisions_arg = map revisions revs;
          immutable_doc = Document_init base_docproto gcs;
          (immutable_revision_doc, s) =
             alloc (DocumentWithRevisions_init immutable_doc revisions_arg gcs) s
      in revs_loop immutable_doc revisions_arg gcs revs immutable_revision_doc s)"

section \<open>\<open>DocumentWithRevisions.at_revision\<close>\<close>

text \<open>
  What \<open>at_revision\<close> returns: a reference to a snapshot object or a Python string.
\<close>

datatype py_value = Ref nat | Str string

text \<open>
  The two \<open>while\<close> loops of \<open>at_revision\<close>. On a heap whose links form a cycle they
  need not end, so each is a partial function and \<open>None\<close> means that it does not return.
  The argument \<open>ident\<close> is the source's parameter \<open>id\<close>: a string or None.
\<close>

partial_function (option) at_revision_back ::
  "heap \<Rightarrow> nat \<Rightarrow> string option \<Rightarrow> (nat \<times> heap) option" where
  "at_revision_back s self ident =
     (if last' (objs s self) \<noteq> None \<and> ident \<noteq> revision_id (objs s self)
      then (let m_next = self;
                self = the (last' (objs s self));
                s = upd self (\<lambda>n. n\<lparr>next' := Some m_next\<rparr>) s
            in at_revision_back s self ident)
      else Some (self, s))"

partial_function (option) at_revision_fwd ::
  "heap \<Rightarrow> nat \<Rightarrow> string option \<Rightarrow> (nat \<times> heap) option" where
  "at_revision_fwd s self ident =
     (if next' (objs s self) \<noteq> None \<and> ident \<noteq> revision_id (objs s self)
      then (let m_last = self;
                self = the (next' (objs s self));
                s = upd self (\<lambda>n. n\<lparr>last' := Some m_last\<rparr>) s
            in at_revision_fwd s self ident)
      else Some (self, s))"

definition at_revision :: "heap \<Rightarrow> nat \<Rightarrow> string option \<Rightarrow> (py_value \<times> heap) option" where
  "at_revision s self ident =
     (case at_revision_back s self ident of
        None \<Rightarrow> None
      | Some (self, s) \<Rightarrow>
          if ident = revision_id (objs s self) then Some (Ref self, s)
          else (case at_revision_fwd s self ident of
                  None \<Rightarrow> None
                | Some (self, s) \<Rightarrow>
                    if ident = revision_id (objs s self) then Some (Ref self, s)
                    else Some (Str ''Not Found'', s)))"

section \<open>Chains of snapshots\<close>

text \<open>
  The snapshots at the addresses \<open>as\<close>, in this order, form a chain of the heap: the
  \<open>last\<close> of each is its predecessor in the list (None for the first) and the \<open>next_\<close>
  of each is its successor (None for the last).
\<close>

fun linked :: "heap \<Rightarrow> nat option \<Rightarrow> nat list \<Rightarrow> bool" where
  "linked s p [] = True"
| "linked s p (a # as) =
     (last' (objs s a) = p
      \<and> next' (objs s a) = (case as of [] \<Rightarrow> None | b # _ \<Rightarrow> Some b)
      \<and> linked s (Some a) as)"

definition chain :: "heap \<Rightarrow> nat list \<Rightarrow> bool" where
  "chain s as = (as \<noteq> [] \<and> linked s None as)"

text \<open>
  A caller that looks up one id after the other, each time on some snapshot, and drops
  what the lookups return.
\<close>

fun lookups :: "heap \<Rightarrow> (nat \<times> string option) list \<Rightarrow> heap option" where
  "lookups s [] = Some s"
| "lookups s ((self, ident) # qs) =
     (case at_revision s self ident of
        None \<Rightarrow> None
      | Some (_, s') \<Rightarrow> lookups s' qs)"

section \<open>Example operations\<close>

text \<open>
  The operations of a revision record as the specification writes them: \<open>Add(kind, text)\<close>,
  \<open>Remove(target)\<close> and \<open>Replace(target, kind, text)\<close>, as protobuf entities. The
  target is the text of the field \<open>id\<close>.
\<close>

definition add_op :: "string \<Rightarrow> string \<Rightarrow> documentai_Entity" where
  "add_op k t = \<lparr>type' = k, mention_text = t, id' = [], provenance_type' = ADD\<rparr>"

definition remove_op :: "string \<Rightarrow> documentai_Entity" where
  "remove_op target =
     \<lparr>type' = [], mention_text = [], id' = code_points target, provenance_type' = REMOVE\<rparr>"

definition replace_op :: "string \<Rightarrow> string \<Rightarrow> string \<Rightarrow> documentai_Entity" where
  "replace_op target k t =
     \<lparr>type' = k, mention_text = t, id' = code_points target, provenance_type' = REPLACE\<rparr>"

text \<open>
  A revision shard with one revision entry, and a heap on which nothing has been built.
\<close>

definition rev_doc :: "string \<Rightarrow> int list \<Rightarrow> documentai_Entity list \<Rightarrow> documentai_Document" where
  "rev_doc rid parents ops =
     \<lparr>text' = [], pages = [], entities = ops, revisions = [\<lparr>rev_id = rid, parent = parents\<rparr>]\<rparr>"

definition heap0 :: heap where
  "heap0 = \<lparr>objs = (\<lambda>_. DocumentWithRevisions_init (Document_init [] []) [] []),
            nxt = 0, cls_root_revision = None\<rparr>"

text \<open>
  Two revision shards, \<open>r1\<close> adding an entity \<open>A\<close> and \<open>r2\<close> adding an entity \<open>B\<close>;
  the heap that building their chain on \<open>heap0\<close> leaves; and a heap on which five
  objects exist already.
\<close>

definition demo_revs :: "documentai_Document list" where
  "demo_revs = [rev_doc ''r1'' [] [add_op ''A'' ''x''], rev_doc ''r2'' [1] [add_op ''B'' ''y'']]"

definition demo_heap :: heap where
  "demo_heap =
     (case from_gcs_prefix_with_revisions ''gs://b/p'' [] demo_revs heap0 of
        Inl (_, t) \<Rightarrow> t
      | Inr (_, t) \<Rightarrow> t)"

definition heap5 :: heap where
  "heap5 = heap0\<lparr>nxt := 5, cls_root_revision := Some 3\<rparr>"

(*THEOREMS*)

section \<open>The loop body of \<open>_modify_docproto\<close>\<close>

lemmas py_int_eval = py_int_def strip_def is_space_def digit_val_def code_points_def

lemmas op_defs = add_op_def remove_op_def replace_op_def

lemmas pop_eval = list_pop_def py_index_def PY_SSIZE_T_MAX_def

lemma py_index_Some:
  "py_index n i = Some j \<longleftrightarrow>
     (- int n \<le> i \<and> i < int n \<and> j = (if i < 0 then nat (i + int n) else nat i))"
  by (auto simp: py_index_def Let_def)

lemma py_index_None: "py_index n i = None \<longleftrightarrow> (i < - int n \<or> int n \<le> i)"
  by (auto simp: py_index_def Let_def)

text \<open>What one REMOVE does, by the position its index selects.\<close>

lemma modify_step_remove:
  assumes "provenance_type' e = REMOVE" "py_int (id' e) = Some t"
  shows "modify_step (es, h) e =
     (if t - 1 < - PY_SSIZE_T_MAX - 1 \<or> PY_SSIZE_T_MAX < t - 1 then Inl (OverflowError, (es, h))
      else if t \<le> - int (length es) \<or> int (length es) < t then Inl (IndexError, (es, h))
      else let j = (if t < 1 then nat (t - 1 + int (length es)) else nat (t - 1))
           in Inr (take j es @ drop (Suc j) es,
                h @ [\<lparr>object = ''Entity'', entity_provenance_type = ''REMOVE'',
                       original_entity = e,
                       original_type = ent_type' (es ! j),
                       original_text = ent_mention_text (es ! j),
                       replace_type = None, replace_text = None\<rparr>]))"
  using assms
  by (auto simp: modify_step_def list_pop_def py_index_None py_index_Some Let_def
           split: option.splits)

lemma modify_step_remove_unparsed:
  assumes "provenance_type' e = REMOVE" "py_int (id' e) = None"
  shows "modify_step (es, h) e = Inl (ValueError, (es, h))"
  using assms by (simp add: modify_step_def)

text \<open>What one REPLACE does: the history entry is appended before the index is used.\<close>

lemma modify_step_replace:
  assumes "provenance_type' e = REPLACE" "py_int (id' e) = Some t"
  shows "modify_step (es, h) e =
     (let h' = h @ [\<lparr>object = ''Entity'', entity_provenance_type = ''REPLACE'',
                       original_entity = e,
                       original_type = type' e, original_text = mention_text e,
                       replace_type = Some (type' e),
                       replace_text = Some (mention_text e)\<rparr>]
      in if t \<le> - int (length es) \<or> int (length es) < t then Inl (IndexError, (es, h'))
         else let j = (if t < 1 then nat (t - 1 + int (length es)) else nat (t - 1))
              in Inr (es[j := replace (es ! j) e], h'))"
  using assms
  by (auto simp: modify_step_def py_index_None py_index_Some Let_def split: option.splits)

lemma modify_loop_append:
  "modify_loop st (xs @ ys) =
     (case modify_loop st xs of Inl x \<Rightarrow> Inl x | Inr st' \<Rightarrow> modify_loop st' ys)"
  by (induction xs arbitrary: st) (auto split: sum.splits)

subsection \<open>The primitives at some inputs\<close>

text \<open>
  \<open>int\<close> on ids with blanks, a sign and underscores; on an id that begins with the
  separator U+001C, which raises; on ids with the no-break space U+00A0, the thin space
  U+2009 and digits of other scripts; and on the superscript two, which is no decimal
  digit.
\<close>

lemma py_int_examples:
  "py_int (code_points ''1'') = Some 1"
  "py_int (code_points '' +12 '') = Some 12"
  "py_int (code_points ''-1_0'') = Some (- 10)"
  "py_int (code_points ''1__0'') = None"
  "py_int (code_points ''- 1'') = None"
  "py_int [] = None"
  "py_int [0x1C, 50] = None"
  "py_int [0xA0, 50, 0x2009] = Some 2"
  "py_int [0x661, 0x1D7DA] = Some 12"
  "py_int [0xB2] = None"
  by (simp_all add: py_int_eval decimal_zeros_def)

text \<open>More than 4300 digits raise ValueError.\<close>

lemma py_int_digit_limit:
  assumes "4300 < n"
  shows "py_int (replicate n 48) = None"
proof -
  from assms obtain m where n: "n = Suc m" and m: "4300 \<le> m" by (cases n) auto
  have s: "strip (replicate n 48) = replicate n 48"
    by (simp add: strip_def is_space_def dropWhile_replicate)
  have f: "filter (\<lambda>d. d \<noteq> 95) (replicate m (48 :: nat)) = replicate m 48"
    by (induction m) auto
  show ?thesis unfolding py_int_def s unfolding n using m by (simp add: f)
qed

text \<open>
  An index too large for a \<open>Py_ssize_t\<close>: \<open>pop\<close> raises OverflowError, the subscript
  IndexError.
\<close>

lemma remove_huge_target_overflows:
  "modify_step ([Entity_init (add_op ''A'' ''x'')], []) (remove_op ''99999999999999999999'') =
     Inl (OverflowError, ([Entity_init (add_op ''A'' ''x'')], []))"
  by (simp add: modify_step_def pop_eval op_defs py_int_eval)

lemma replace_huge_target_index_error:
  "map_sum fst fst
     (modify_step ([Entity_init (add_op ''A'' ''x'')], [])
        (replace_op ''99999999999999999999'' ''B'' ''y'')) =
     Inl IndexError"
  by (simp add: modify_step_def pop_eval op_defs py_int_eval)

text \<open>
  Claim C4, as the code has it. The claim's bound, failure exactly when the target index
  is outside \<open>1..len(entities)\<close>, does not hold: \<open>list.pop\<close> counts a negative index from
  the end, so a REMOVE whose target is 0 succeeds on the one-element list.
\<close>

theorem remove_target_zero_counterexample:
  "py_int (id' (remove_op ''0'')) = Some 0
   \<and> modify_step ([Entity_init (add_op ''A'' ''x'')], []) (remove_op ''0'') =
       Inr ([], [\<lparr>object = ''Entity'', entity_provenance_type = ''REMOVE'',
                   original_entity = remove_op ''0'',
                   original_type = ''A'', original_text = ''x'',
                   replace_type = None, replace_text = None\<rparr>])"
  by (simp add: modify_step_def pop_eval op_defs Entity_init_def py_int_eval)

text \<open>
  Claim C4, amended. A REMOVE whose id \<open>int\<close> does not parse raises ValueError. A REMOVE
  whose id parses to the target index \<open>t\<close> raises exactly when \<open>t\<close> is outside
  \<open>1 - len(entities) .. len(entities)\<close>; it raises IndexError when the index \<open>t - 1\<close> fits
  a \<open>Py_ssize_t\<close> and OverflowError when it does not. Whatever is raised, both lists are
  then as they were before the operation. For \<open>1 \<le> t \<le> len(entities)\<close> the entity at
  position \<open>t - 1\<close> is removed, and for \<open>1 - len(entities) \<le> t \<le> 0\<close> the entity at
  position \<open>len(entities) + t - 1\<close>; the type and text of the removed entity are the
  history entry's originals. The list is a Python list: it has at most \<open>sys.maxsize\<close>
  elements.
\<close>

theorem remove_contract:
  assumes "provenance_type' e = REMOVE" and "int (length es) \<le> PY_SSIZE_T_MAX"
  shows "(py_int (id' e) = None \<longrightarrow> modify_step (es, h) e = Inl (ValueError, (es, h)))
       \<and> (\<forall>t. py_int (id' e) = Some t \<longrightarrow>
            ((\<exists>x. modify_step (es, h) e = Inl x)
               \<longleftrightarrow> (t \<le> - int (length es) \<or> int (length es) < t))
          \<and> (\<forall>x. modify_step (es, h) e = Inl x \<longrightarrow>
                 x = (if - PY_SSIZE_T_MAX - 1 \<le> t - 1 \<and> t - 1 \<le> PY_SSIZE_T_MAX
                      then IndexError else OverflowError, (es, h)))
          \<and> (1 \<le> t \<and> t \<le> int (length es) \<longrightarrow>
                modify_step (es, h) e =
                  Inr (take (nat (t - 1)) es @ drop (nat t) es,
                       h @ [\<lparr>object = ''Entity'', entity_provenance_type = ''REMOVE'',
                              original_entity = e,
                              original_type = ent_type' (es ! nat (t - 1)),
                              original_text = ent_mention_text (es ! nat (t - 1)),
                              replace_type = None, replace_text = None\<rparr>]))
          \<and> (- int (length es) < t \<and> t \<le> 0 \<longrightarrow>
                modify_step (es, h) e =
                  Inr (take (nat (int (length es) + t - 1)) es
                         @ drop (nat (int (length es) + t)) es,
                       h @ [\<lparr>object = ''Entity'', entity_provenance_type = ''REMOVE'',
                              original_entity = e,
                              original_type = ent_type' (es ! nat (int (length es) + t - 1)),
                              original_text =
                                ent_mention_text (es ! nat (int (length es) + t - 1)),
                              replace_type = None, replace_text = None\<rparr>])))"
proof -
  have v: "py_int (id' e) = None \<longrightarrow> modify_step (es, h) e = Inl (ValueError, (es, h))"
    using modify_step_remove_unparsed [OF assms(1)] by simp
  have p: "((\<exists>x. modify_step (es, h) e = Inl x)
               \<longleftrightarrow> (t \<le> - int (length es) \<or> int (length es) < t))
          \<and> (\<forall>x. modify_step (es, h) e = Inl x \<longrightarrow>
                 x = (if - PY_SSIZE_T_MAX - 1 \<le> t - 1 \<and> t - 1 \<le> PY_SSIZE_T_MAX
                      then IndexError else OverflowError, (es, h)))
          \<and> (1 \<le> t \<and> t \<le> int (length es) \<longrightarrow>
                modify_step (es, h) e =
                  Inr (take (nat (t - 1)) es @ drop (nat t) es,
                       h @ [\<lparr>object = ''Entity'', entity_provenance_type = ''REMOVE'',
                              original_entity = e,
                              original_type = ent_type' (es ! nat (t - 1)),
                              original_text = ent_mention_text (es ! nat (t - 1)),
                              replace_type = None, replace_text = None\<rparr>]))
          \<and> (- int (length es) < t \<and> t \<le> 0 \<longrightarrow>
                modify_step (es, h) e =
                  Inr (take (nat (int (length es) + t - 1)) es
                         @ drop (nat (int (length es) + t)) es,
                       h @ [\<lparr>object = ''Entity'', entity_provenance_type = ''REMOVE'',
                              original_entity = e,
                              original_type = ent_type' (es ! nat (int (length es) + t - 1)),
                              original_text =
                                ent_mention_text (es ! nat (int (length es) + t - 1)),
                              replace_type = None, replace_text = None\<rparr>]))"
    if t: "py_int (id' e) = Some t" for t
  proof -
    note step = modify_step_remove [OF assms(1) t, of es h]
    have m: "0 \<le> PY_SSIZE_T_MAX" by (simp add: PY_SSIZE_T_MAX_def)
    have a: "(\<exists>x. modify_step (es, h) e = Inl x)
               \<longleftrightarrow> (t \<le> - int (length es) \<or> int (length es) < t)"
      using assms(2) m by (auto simp add: step Let_def)
    have b: "\<forall>x. modify_step (es, h) e = Inl x \<longrightarrow>
                 x = (if - PY_SSIZE_T_MAX - 1 \<le> t - 1 \<and> t - 1 \<le> PY_SSIZE_T_MAX
                      then IndexError else OverflowError, (es, h))"
      by (auto simp add: step Let_def split: if_splits)
    have c: "1 \<le> t \<and> t \<le> int (length es) \<longrightarrow>
                modify_step (es, h) e =
                  Inr (take (nat (t - 1)) es @ drop (nat t) es,
                       h @ [\<lparr>object = ''Entity'', entity_provenance_type = ''REMOVE'',
                              original_entity = e,
                              original_type = ent_type' (es ! nat (t - 1)),
                              original_text = ent_mention_text (es ! nat (t - 1)),
                              replace_type = None, replace_text = None\<rparr>])"
    proof
      assume r: "1 \<le> t \<and> t \<le> int (length es)"
      then have "Suc (nat (t - 1)) = nat t" by arith
      with r assms(2) m show "modify_step (es, h) e =
                  Inr (take (nat (t - 1)) es @ drop (nat t) es,
                       h @ [\<lparr>object = ''Entity'', entity_provenance_type = ''REMOVE'',
                              original_entity = e,
                              original_type = ent_type' (es ! nat (t - 1)),
                              original_text = ent_mention_text (es ! nat (t - 1)),
                              replace_type = None, replace_text = None\<rparr>])"
        by (simp add: step Let_def)
    qed
    have d: "- int (length es) < t \<and> t \<le> 0 \<longrightarrow>
                modify_step (es, h) e =
                  Inr (take (nat (int (length es) + t - 1)) es
                         @ drop (nat (int (length es) + t)) es,
                       h @ [\<lparr>object = ''Entity'', entity_provenance_type = ''REMOVE'',
                              original_entity = e,
                              original_type = ent_type' (es ! nat (int (length es) + t - 1)),
                              original_text =
                                ent_mention_text (es ! nat (int (length es) + t - 1)),
                              replace_type = None, replace_text = None\<rparr>])"
    proof
      assume r: "- int (length es) < t \<and> t \<le> 0"
      then have s: "Suc (nat (int (length es) + t - 1)) = nat (int (length es) + t)" by arith
      have o: "t - 1 + int (length es) = int (length es) + t - 1" by simp
      from r assms(2) m have w: "\<not> (t - 1 < - PY_SSIZE_T_MAX - 1 \<or> PY_SSIZE_T_MAX < t - 1)"
        by arith
      from r have i: "\<not> (t \<le> - int (length es) \<or> int (length es) < t)" by arith
      from r have l: "t < 1" by simp
      show "modify_step (es, h) e =
                  Inr (take (nat (int (length es) + t - 1)) es
                         @ drop (nat (int (length es) + t)) es,
                       h @ [\<lparr>object = ''Entity'', entity_provenance_type = ''REMOVE'',
                              original_entity = e,
                              original_type = ent_type' (es ! nat (int (length es) + t - 1)),
                              original_text =
                                ent_mention_text (es ! nat (int (length es) + t - 1)),
                              replace_type = None, replace_text = None\<rparr>])"
        unfolding step using w i l by (simp add: Let_def o s)
    qed
    from a b c d show ?thesis by blast
  qed
  from v p show ?thesis by blast
qed

text \<open>
  Claim C9: on a non-empty list a REMOVE whose target index is 0 does not raise; it
  removes the last entity and records that entity's type and text as the originals.
\<close>

theorem remove_zero_pops_last:
  assumes "es \<noteq> []" and "provenance_type' e = REMOVE" and "py_int (id' e) = Some 0"
  shows "modify_step (es, h) e =
           Inr (butlast es,
                h @ [\<lparr>object = ''Entity'', entity_provenance_type = ''REMOVE'',
                       original_entity = e,
                       original_type = ent_type' (last es),
                       original_text = ent_mention_text (last es),
                       replace_type = None, replace_text = None\<rparr>])"
proof -
  from assms(1) have len: "0 < length es" by simp
  then have j: "nat (int (length es) - 1) = length es - 1" by arith
  have "take (length es - 1) es @ drop (Suc (length es - 1)) es = butlast es"
    using len by (simp add: butlast_conv_take)
  moreover have "es ! (length es - 1) = last es"
    using assms(1) by (simp add: last_conv_nth)
  ultimately show ?thesis
    using len by (simp add: modify_step_remove [OF assms(2,3)] Let_def j PY_SSIZE_T_MAX_def)
qed

text \<open>
  Claim C10, as the code has it. A REPLACE whose target index is 0 is outside
  \<open>1..len(entities)\<close> and yet does not fail on a non-empty list: the subscript counts from
  the end and the last entity is replaced.
\<close>

theorem replace_target_zero_counterexample:
  "py_int (id' (replace_op ''0'' ''B'' ''y'')) = Some 0
   \<and> modify_step ([Entity_init (add_op ''A'' ''x'')], []) (replace_op ''0'' ''B'' ''y'') =
       Inr ([\<lparr>ent_type' = ''B'', ent_mention_text = ''y''\<rparr>],
            [\<lparr>object = ''Entity'', entity_provenance_type = ''REPLACE'',
              original_entity = replace_op ''0'' ''B'' ''y'',
              original_type = ''B'', original_text = ''y'',
              replace_type = Some ''B'', replace_text = Some ''y''\<rparr>])"
  by (simp add: modify_step_def py_index_def op_defs Entity_init_def replace_def py_int_eval)

text \<open>
  Claim C10, amended: a REPLACE whose target index is outside
  \<open>1 - len(entities) .. len(entities)\<close> raises IndexError after its history entry has been
  appended: at the failure the history list is one entry longer and the entity list is
  unchanged.
\<close>

theorem replace_out_of_range:
  assumes "provenance_type' e = REPLACE" and "py_int (id' e) = Some t"
    and "t \<le> - int (length es) \<or> int (length es) < t"
  shows "modify_step (es, h) e =
           Inl (IndexError,
                (es, h @ [\<lparr>object = ''Entity'', entity_provenance_type = ''REPLACE'',
                            original_entity = e,
                            original_type = type' e, original_text = mention_text e,
                            replace_type = Some (type' e),
                            replace_text = Some (mention_text e)\<rparr>]))"
  using assms(3) by (simp add: modify_step_replace [OF assms(1,2)] Let_def)

section \<open>Whole records\<close>

theorem remove_contract_witness:
  "provenance_type' (remove_op ''1'') = REMOVE
   \<and> int (length [Entity_init (add_op ''A'' ''x''), Entity_init (add_op ''B'' ''y'')])
       \<le> PY_SSIZE_T_MAX
   \<and> py_int (id' (remove_op ''1'')) = Some 1
   \<and> modify_step ([Entity_init (add_op ''A'' ''x''), Entity_init (add_op ''B'' ''y'')], [])
        (remove_op ''1'') =
       Inr ([Entity_init (add_op ''B'' ''y'')],
            [\<lparr>object = ''Entity'', entity_provenance_type = ''REMOVE'',
              original_entity = remove_op ''1'',
              original_type = ''A'', original_text = ''x'',
              replace_type = None, replace_text = None\<rparr>])"
  using remove_contract [of "remove_op ''1''"
      "[Entity_init (add_op ''A'' ''x''), Entity_init (add_op ''B'' ''y'')]" "[]"]
  by (simp add: op_defs py_int_eval Entity_init_def PY_SSIZE_T_MAX_def)

theorem remove_zero_pops_last_witness:
  "[Entity_init (add_op ''A'' ''x''), Entity_init (add_op ''B'' ''y'')] \<noteq> []
   \<and> provenance_type' (remove_op ''0'') = REMOVE
   \<and> py_int (id' (remove_op ''0'')) = Some 0
   \<and> modify_step ([Entity_init (add_op ''A'' ''x''), Entity_init (add_op ''B'' ''y'')], [])
        (remove_op ''0'') =
       Inr ([Entity_init (add_op ''A'' ''x'')],
            [\<lparr>object = ''Entity'', entity_provenance_type = ''REMOVE'',
              original_entity = remove_op ''0'',
              original_type = ''B'', original_text = ''y'',
              replace_type = None, replace_text = None\<rparr>])"
  using remove_zero_pops_last [of
      "[Entity_init (add_op ''A'' ''x''), Entity_init (add_op ''B'' ''y'')]" "remove_op ''0''" "[]"]
  by (simp add: op_defs py_int_eval Entity_init_def)

theorem replace_out_of_range_witness:
  "provenance_type' (replace_op ''5'' ''B'' ''y'') = REPLACE
   \<and> py_int (id' (replace_op ''5'' ''B'' ''y'')) = Some 5
   \<and> modify_step ([Entity_init (add_op ''A'' ''x'')], []) (replace_op ''5'' ''B'' ''y'') =
       Inl (IndexError,
            ([Entity_init (add_op ''A'' ''x'')],
             [\<lparr>object = ''Entity'', entity_provenance_type = ''REPLACE'',
               original_entity = replace_op ''5'' ''B'' ''y'',
               original_type = ''B'', original_text = ''y'',
               replace_type = Some ''B'', replace_text = Some ''y''\<rparr>]))"
  using replace_out_of_range [of "replace_op ''5'' ''B'' ''y''" 5
      "[Entity_init (add_op ''A'' ''x'')]" "[]"]
  by (simp add: op_defs py_int_eval)

text \<open>
  Claim C5 at a concrete input: the record \<open>[Add(A, x), Replace(1, B, y)]\<close>. The entity
  is overwritten with the payload's type and text, but the history entry of the REPLACE
  holds the payload's type and text under \<open>original_type\<close> and \<open>original_text\<close> as well:
  the values \<open>A\<close> and \<open>x\<close> that the entity had before are not recorded.
\<close>

theorem replace_history_original_is_payload:
  "modify_docproto [add_op ''A'' ''x'', replace_op ''1'' ''B'' ''y''] =
     Inr ([\<lparr>ent_type' = ''B'', ent_mention_text = ''y''\<rparr>],
          [\<lparr>object = ''Entity'', entity_provenance_type = ''ADD'',
            original_entity = add_op ''A'' ''x'',
            original_type = ''A'', original_text = ''x'',
            replace_type = None, replace_text = None\<rparr>,
           \<lparr>object = ''Entity'', entity_provenance_type = ''REPLACE'',
            original_entity = replace_op ''1'' ''B'' ''y'',
            original_type = ''B'', original_text = ''y'',
            replace_type = Some ''B'', replace_text = Some ''y''\<rparr>])"
  by (simp add: modify_docproto_def modify_step_def py_index_def op_defs Entity_init_def
        replace_def py_int_eval)

lemma modify_step_add:
  assumes "provenance_type' e = ADD"
  shows "modify_step (es, h) e =
     Inr (es @ [Entity_init e],
          h @ [\<lparr>object = ''Entity'', entity_provenance_type = ''ADD'',
                 original_entity = e,
                 original_type = type' e, original_text = mention_text e,
                 replace_type = None, replace_text = None\<rparr>])"
  using assms by (simp add: modify_step_def)

text \<open>
  Claim C7: the operations of one record are applied in list order, each to the lists
  left by all operations before it (and not at all once an earlier one has raised); in
  particular two ADDs followed by a REMOVE of target 1 leave exactly the second entity,
  the REMOVE recording the first one's type and text.
\<close>

theorem operations_in_list_order:
  assumes "provenance_type' a = ADD" and "provenance_type' b = ADD"
    and "provenance_type' r = REMOVE" and "py_int (id' r) = Some 1"
  shows "modify_loop st (ops @ [e]) =
           (case modify_loop st ops of Inl x \<Rightarrow> Inl x | Inr st' \<Rightarrow> modify_step st' e)
       \<and> modify_docproto [a, b, r] =
           Inr ([Entity_init b],
                [\<lparr>object = ''Entity'', entity_provenance_type = ''ADD'',
                  original_entity = a,
                  original_type = type' a, original_text = mention_text a,
                  replace_type = None, replace_text = None\<rparr>,
                 \<lparr>object = ''Entity'', entity_provenance_type = ''ADD'',
                  original_entity = b,
                  original_type = type' b, original_text = mention_text b,
                  replace_type = None, replace_text = None\<rparr>,
                 \<lparr>object = ''Entity'', entity_provenance_type = ''REMOVE'',
                  original_entity = r,
                  original_type = type' a, original_text = mention_text a,
                  replace_type = None, replace_text = None\<rparr>])"
proof -
  have order: "modify_loop st (ops @ [e]) =
           (case modify_loop st ops of Inl x \<Rightarrow> Inl x | Inr st' \<Rightarrow> modify_step st' e)"
    by (simp add: modify_loop_append split: sum.splits)
  have example: "modify_docproto [a, b, r] =
           Inr ([Entity_init b],
                [\<lparr>object = ''Entity'', entity_provenance_type = ''ADD'',
                  original_entity = a,
                  original_type = type' a, original_text = mention_text a,
                  replace_type = None, replace_text = None\<rparr>,
                 \<lparr>object = ''Entity'', entity_provenance_type = ''ADD'',
                  original_entity = b,
                  original_type = type' b, original_text = mention_text b,
                  replace_type = None, replace_text = None\<rparr>,
                 \<lparr>object = ''Entity'', entity_provenance_type = ''REMOVE'',
                  original_entity = r,
                  original_type = type' a, original_text = mention_text a,
                  replace_type = None, replace_text = None\<rparr>])"
    by (simp add: modify_docproto_def modify_step_add [OF assms(1)] modify_step_add [OF assms(2)]
          modify_step_remove [OF assms(3,4)] Entity_init_def PY_SSIZE_T_MAX_def)
  from order example show ?thesis by simp
qed

theorem operations_in_list_order_witness:
  "provenance_type' (add_op ''A'' ''x'') = ADD \<and> provenance_type' (add_op ''B'' ''y'') = ADD
   \<and> provenance_type' (remove_op ''1'') = REMOVE \<and> py_int (id' (remove_op ''1'')) = Some 1
   \<and> map_sum (\<lambda>e. e) fst (modify_docproto [add_op ''A'' ''x'', add_op ''B'' ''y'', remove_op ''1''])
       = Inr [\<lparr>ent_type' = ''B'', ent_mention_text = ''y''\<rparr>]"
  using operations_in_list_order [of "add_op ''A'' ''x''" "add_op ''B'' ''y''" "remove_op ''1''"]
  by (simp add: op_defs py_int_eval Entity_init_def)

section \<open>Lookup on a chain\<close>

lemma upd_same: "f (objs s a) = objs s a \<Longrightarrow> upd a f s = s"
  by (simp add: upd_def)

lemma linked_nth:
  "linked s p as \<Longrightarrow> i < length as \<Longrightarrow>
     last' (objs s (as ! i)) = (if i = 0 then p else Some (as ! (i - 1)))
     \<and> next' (objs s (as ! i)) = (if Suc i < length as then Some (as ! Suc i) else None)"
proof (induction as arbitrary: p i)
  case Nil
  then show ?case by simp
next
  case (Cons a as)
  show ?case
  proof (cases i)
    case 0
    with Cons.prems show ?thesis by (cases as) auto
  next
    case (Suc k)
    with Cons.prems have "linked s (Some a) as" and "k < length as" by auto
    from Cons.IH [OF this] Suc show ?thesis by (cases k) auto
  qed
qed

lemma back_sim:
  assumes "linked s1 None as1" and "linked s2 None as2" and "length as1 = length as2"
    and "\<forall>k<length as1. revision_id (objs s1 (as1 ! k)) = revision_id (objs s2 (as2 ! k))"
  shows "i < length as1 \<Longrightarrow>
     \<exists>j\<le>i. at_revision_back s1 (as1 ! i) x = Some (as1 ! j, s1)
          \<and> at_revision_back s2 (as2 ! i) x = Some (as2 ! j, s2)"
proof (induction i)
  case 0
  have "last' (objs s1 (as1 ! 0)) = None" "last' (objs s2 (as2 ! 0)) = None"
    using linked_nth [OF assms(1), of 0] linked_nth [OF assms(2), of 0] 0 assms(3) by auto
  then have "at_revision_back s1 (as1 ! 0) x = Some (as1 ! 0, s1)"
    and "at_revision_back s2 (as2 ! 0) x = Some (as2 ! 0, s2)"
    by (simp_all add: at_revision_back.simps)
  then show ?case by blast
next
  case (Suc i)
  then have i: "i < length as1" "Suc i < length as1" "Suc i < length as2" using assms(3) by auto
  have l1: "last' (objs s1 (as1 ! Suc i)) = Some (as1 ! i)"
    using linked_nth [OF assms(1), of "Suc i"] i by simp
  have l2: "last' (objs s2 (as2 ! Suc i)) = Some (as2 ! i)"
    using linked_nth [OF assms(2), of "Suc i"] i by simp
  have n1: "next' (objs s1 (as1 ! i)) = Some (as1 ! Suc i)"
    using linked_nth [OF assms(1), of i] i by simp
  have n2: "next' (objs s2 (as2 ! i)) = Some (as2 ! Suc i)"
    using linked_nth [OF assms(2), of i] i assms(3) by simp
  have u1: "upd (as1 ! i) (\<lambda>n. n\<lparr>next' := Some (as1 ! Suc i)\<rparr>) s1 = s1"
    using n1 by (intro upd_same) (metis DocumentWithRevisions.surjective DocumentWithRevisions.update_convs(4))
  have u2: "upd (as2 ! i) (\<lambda>n. n\<lparr>next' := Some (as2 ! Suc i)\<rparr>) s2 = s2"
    using n2 by (intro upd_same) (metis DocumentWithRevisions.surjective DocumentWithRevisions.update_convs(4))
  have same: "revision_id (objs s1 (as1 ! Suc i)) = revision_id (objs s2 (as2 ! Suc i))"
    using assms(4) i by simp
  show ?case
  proof (cases "x = revision_id (objs s1 (as1 ! Suc i))")
    case True
    then have "at_revision_back s1 (as1 ! Suc i) x = Some (as1 ! Suc i, s1)"
      and "at_revision_back s2 (as2 ! Suc i) x = Some (as2 ! Suc i, s2)"
      using same by (simp_all add: at_revision_back.simps)
    then show ?thesis by blast
  next
    case False
    then have "at_revision_back s1 (as1 ! Suc i) x = at_revision_back s1 (as1 ! i) x"
      and "at_revision_back s2 (as2 ! Suc i) x = at_revision_back s2 (as2 ! i) x"
      using same l1 l2 u1 u2
      by (subst at_revision_back.simps, simp)+
    with Suc.IH [OF i(1)] show ?thesis by (metis le_Suc_eq)
  qed
qed


lemma fwd_sim:
  assumes "linked s1 None as1" and "linked s2 None as2" and "length as1 = length as2"
    and "\<forall>k<length as1. revision_id (objs s1 (as1 ! k)) = revision_id (objs s2 (as2 ! k))"
  shows "i < length as1 \<Longrightarrow>
     \<exists>j<length as1. at_revision_fwd s1 (as1 ! i) x = Some (as1 ! j, s1)
          \<and> at_revision_fwd s2 (as2 ! i) x = Some (as2 ! j, s2)"
proof (induction "length as1 - i" arbitrary: i)
  case 0
  then show ?case by simp
next
  case (Suc d)
  then have i: "i < length as1" "i < length as2" using assms(3) by auto
  have same: "revision_id (objs s1 (as1 ! i)) = revision_id (objs s2 (as2 ! i))"
    using assms(4) i by simp
  show ?case
  proof (cases "Suc i < length as1 \<and> x \<noteq> revision_id (objs s1 (as1 ! i))")
    case True
    then have si: "Suc i < length as1" "Suc i < length as2" using assms(3) by auto
    have n1: "next' (objs s1 (as1 ! i)) = Some (as1 ! Suc i)"
      using linked_nth [OF assms(1), of i] si by simp
    have n2: "next' (objs s2 (as2 ! i)) = Some (as2 ! Suc i)"
      using linked_nth [OF assms(2), of i] si by simp
    have l1: "last' (objs s1 (as1 ! Suc i)) = Some (as1 ! i)"
      using linked_nth [OF assms(1), of "Suc i"] si by simp
    have l2: "last' (objs s2 (as2 ! Suc i)) = Some (as2 ! i)"
      using linked_nth [OF assms(2), of "Suc i"] si by simp
    have u1: "upd (as1 ! Suc i) (\<lambda>n. n\<lparr>last' := Some (as1 ! i)\<rparr>) s1 = s1"
      using l1 by (intro upd_same) (metis DocumentWithRevisions.surjective DocumentWithRevisions.update_convs(5))
    have u2: "upd (as2 ! Suc i) (\<lambda>n. n\<lparr>last' := Some (as2 ! i)\<rparr>) s2 = s2"
      using l2 by (intro upd_same) (metis DocumentWithRevisions.surjective DocumentWithRevisions.update_convs(5))
    have "at_revision_fwd s1 (as1 ! i) x = at_revision_fwd s1 (as1 ! Suc i) x"
      and "at_revision_fwd s2 (as2 ! i) x = at_revision_fwd s2 (as2 ! Suc i) x"
      using True same n1 n2 u1 u2
      by (subst at_revision_fwd.simps, simp)+
    moreover have "d = length as1 - Suc i" using Suc.hyps(2) by simp
    ultimately show ?thesis using Suc.hyps(1) [of "Suc i"] si by simp
  next
    case False
    have n1: "Suc i < length as1 \<or> next' (objs s1 (as1 ! i)) = None"
      using linked_nth [OF assms(1), of i] i by simp
    have n2: "Suc i < length as1 \<or> next' (objs s2 (as2 ! i)) = None"
      using linked_nth [OF assms(2), of i] i assms(3) by simp
    from False n1 n2 same
    have "at_revision_fwd s1 (as1 ! i) x = Some (as1 ! i, s1)"
      and "at_revision_fwd s2 (as2 ! i) x = Some (as2 ! i, s2)"
      by (auto simp: at_revision_fwd.simps)
    with i show ?thesis by blast
  qed
qed

lemma at_revision_sim:
  assumes "linked s1 None as1" and "linked s2 None as2" and "length as1 = length as2"
    and "\<forall>k<length as1. revision_id (objs s1 (as1 ! k)) = revision_id (objs s2 (as2 ! k))"
    and "i < length as1"
  shows "(\<exists>j<length as1. at_revision s1 (as1 ! i) x = Some (Ref (as1 ! j), s1)
            \<and> at_revision s2 (as2 ! i) x = Some (Ref (as2 ! j), s2)
            \<and> revision_id (objs s1 (as1 ! j)) = x)
       \<or> (at_revision s1 (as1 ! i) x = Some (Str ''Not Found'', s1)
            \<and> at_revision s2 (as2 ! i) x = Some (Str ''Not Found'', s2)
            \<and> (\<exists>j<length as1. revision_id (objs s1 (as1 ! j)) \<noteq> x))"
proof -
  from back_sim [OF assms(1-4) assms(5), of x] obtain j where j: "j \<le> i"
    "at_revision_back s1 (as1 ! i) x = Some (as1 ! j, s1)"
    "at_revision_back s2 (as2 ! i) x = Some (as2 ! j, s2)" by blast
  then have jl: "j < length as1" using assms(5) by simp
  then have samej: "revision_id (objs s1 (as1 ! j)) = revision_id (objs s2 (as2 ! j))"
    using assms(4) by simp
  show ?thesis
  proof (cases "x = revision_id (objs s1 (as1 ! j))")
    case True
    with j jl samej show ?thesis by (auto simp: at_revision_def)
  next
    case False
    from fwd_sim [OF assms(1-4) jl, of x] obtain k where k: "k < length as1"
      "at_revision_fwd s1 (as1 ! j) x = Some (as1 ! k, s1)"
      "at_revision_fwd s2 (as2 ! j) x = Some (as2 ! k, s2)" by blast
    then have samek: "revision_id (objs s1 (as1 ! k)) = revision_id (objs s2 (as2 ! k))"
      using assms(4) by simp
    show ?thesis
    proof (cases "x = revision_id (objs s1 (as1 ! k))")
      case True
      with False j k samej samek show ?thesis by (auto simp: at_revision_def)
    next
      case nf: False
      with False j k samej samek jl show ?thesis by (auto simp: at_revision_def)
    qed
  qed
qed

lemma at_revision_chain:
  assumes "chain s as" and "a \<in> set as"
  shows "(\<exists>b\<in>set as. at_revision s a x = Some (Ref b, s) \<and> revision_id (objs s b) = x)
       \<or> at_revision s a x = Some (Str ''Not Found'', s)"
proof -
  from assms(2) obtain i where i: "i < length as" "a = as ! i" by (auto simp: in_set_conv_nth)
  from assms(1) have l: "linked s None as" by (simp add: chain_def)
  from at_revision_sim [OF l l _ _ i(1), of x] i show ?thesis by auto
qed

text \<open>
  Claim C2: on a chain of snapshots, any sequence of lookups, each started on any snapshot
  of the chain and for any id, present or absent, returns and leaves the heap as it was:
  every \<open>last\<close> and \<open>next_\<close> link and every history list is unchanged. (The two
  assignments in the loops of \<open>at_revision\<close> store into a link the reference that the
  link already holds.)
\<close>

theorem at_revision_leaves_heap:
  assumes "chain s as" and "\<forall>q\<in>set qs. fst q \<in> set as"
  shows "lookups s qs = Some s"
  using assms(2)
proof (induction qs)
  case Nil
  then show ?case by simp
next
  case (Cons q qs)
  obtain a x where q: "q = (a, x)" by (cases q)
  with Cons.prems have "a \<in> set as" by simp
  from at_revision_chain [OF assms(1) this, of x]
  obtain r where "at_revision s a x = Some (r, s)" by blast
  with Cons q show ?case by simp
qed

text \<open>
  Claim C3, amended: for an id that matches no snapshot of the chain, \<open>at_revision\<close>
  returns the Python string \<open>Not Found\<close> and leaves the heap unchanged. The string is no
  snapshot reference, and so differs from every snapshot; it is a string sentinel.
\<close>

theorem at_revision_not_found:
  assumes "chain s as" and "a \<in> set as" and "\<forall>b\<in>set as. revision_id (objs s b) \<noteq> x"
  shows "at_revision s a x = Some (Str ''Not Found'', s)"
  using at_revision_chain [OF assms(1,2), of x] assms(3) by blast

section \<open>The chain that the construction builds\<close>

lemma revs_body_Inr:
  assumes "revs_body D R g r cur s = Inr (c, t)" and "cur \<noteq> nxt s"
  shows "\<exists>es h r0 rest.
           modify_docproto (entities r) = Inr (es, h) \<and> revisions r = r0 # rest
           \<and> c = nxt s \<and> nxt t = Suc (nxt s)
           \<and> objs t = (objs s)
               (cur := (objs s cur)\<lparr>next' := Some (nxt s)\<rparr>,
                nxt s := \<lparr>document = (Document_init (shards D) (doc_gcs_prefix D))\<lparr>doc_entities := es\<rparr>,
                           revision_nodes = R, gcs_prefix = g, next' = None,
                           last' = Some cur, revision_id = Some (rev_id r0), history = h\<rparr>)"
  using assms
  by (auto simp: revs_body_def get_revised_documents_def alloc_def upd_def Let_def
        DocumentWithRevisions_init_def fun_upd_twist
      split: sum.splits list.splits if_splits prod.splits)

lemma revs_body_error:
  "map_sum fst (\<lambda>_. ()) (revs_body D R g r c1 s1) = map_sum fst (\<lambda>_. ()) (revs_body D R g r c2 s2)"
  by (auto simp: revs_body_def get_revised_documents_def alloc_def upd_def Let_def
      split: sum.splits list.splits if_splits prod.splits)


lemma revs_loop_frame:
  "revs_loop D R g revs cur s = Inr (a, t) \<Longrightarrow> cur < nxt s \<Longrightarrow>
     nxt t = nxt s + length revs
     \<and> a = last (cur # [nxt s ..< nxt s + length revs])
     \<and> (\<forall>b. b < nxt s \<and> b \<noteq> cur \<longrightarrow> objs t b = objs s b)
     \<and> (\<exists>nx. objs t cur = (objs s cur)\<lparr>next' := nx\<rparr>)
     \<and> (revs = [] \<longrightarrow> t = s)
     \<and> (revs \<noteq> [] \<longrightarrow> next' (objs t cur) = Some (nxt s))"
proof (induction revs arbitrary: cur s)
  case Nil
  have "objs s cur = (objs s cur)\<lparr>next' := next' (objs s cur)\<rparr>" by simp
  then have "\<exists>nx. objs s cur = (objs s cur)\<lparr>next' := nx\<rparr>" ..
  with Nil show ?case by simp
next
  case (Cons r rs)
  from Cons.prems(1) obtain c s' where body: "revs_body D R g r cur s = Inr (c, s')"
    and rest: "revs_loop D R g rs c s' = Inr (a, t)"
    by (auto split: sum.splits)
  from Cons.prems(2) have ne: "cur \<noteq> nxt s" by simp
  from revs_body_Inr [OF body ne] obtain nd where
    c: "c = nxt s" and n': "nxt s' = Suc (nxt s)"
    and o': "objs s' = (objs s)(cur := (objs s cur)\<lparr>next' := Some (nxt s)\<rparr>, nxt s := nd)"
    by blast
  have "c < nxt s'" using c n' by simp
  note ih = Cons.IH [OF rest this]
  have cur_s': "objs s' cur = (objs s cur)\<lparr>next' := Some (nxt s)\<rparr>"
    using o' ne by simp
  have cur_t: "objs t cur = objs s' cur"
    using ih Cons.prems(2) c n' ne by simp
  have upt: "[nxt s ..< nxt s + length (r # rs)] = nxt s # [nxt s' ..< nxt s' + length rs]"
    using n' by (simp add: upt_rec)
  have "nxt t = nxt s + length (r # rs)" using ih n' by simp
  moreover have "a = last (cur # [nxt s ..< nxt s + length (r # rs)])"
    using ih c upt by simp
  moreover have "\<forall>b. b < nxt s \<and> b \<noteq> cur \<longrightarrow> objs t b = objs s b"
  proof (intro allI impI)
    fix b assume b: "b < nxt s \<and> b \<noteq> cur"
    then have "objs t b = objs s' b" using ih c n' by simp
    also have "\<dots> = objs s b" using o' b by simp
    finally show "objs t b = objs s b" .
  qed
  moreover have "\<exists>nx. objs t cur = (objs s cur)\<lparr>next' := nx\<rparr>"
    using cur_t cur_s' by auto
  moreover have "next' (objs t cur) = Some (nxt s)"
    using cur_t cur_s' by simp
  ultimately show ?case by simp
qed

lemma revs_loop_linked:
  "revs_loop D R g revs cur s = Inr (a, t) \<Longrightarrow> cur < nxt s \<Longrightarrow> next' (objs s cur) = None \<Longrightarrow>
     linked t (last' (objs s cur)) (cur # [nxt s ..< nxt s + length revs])"
proof (induction revs arbitrary: cur s)
  case Nil
  then show ?case by simp
next
  case (Cons r rs)
  from Cons.prems(1) obtain c s' where body: "revs_body D R g r cur s = Inr (c, s')"
    and rest: "revs_loop D R g rs c s' = Inr (a, t)"
    by (auto split: sum.splits)
  from Cons.prems(2) have ne: "cur \<noteq> nxt s" by simp
  from revs_body_Inr [OF body ne] obtain es h r0 rest' where
    "modify_docproto (entities r) = Inr (es, h)" and "revisions r = r0 # rest'"
    and c: "c = nxt s" and n': "nxt s' = Suc (nxt s)"
    and o'': "objs s' = (objs s)
               (cur := (objs s cur)\<lparr>next' := Some (nxt s)\<rparr>,
                nxt s := \<lparr>document = (Document_init (shards D) (doc_gcs_prefix D))\<lparr>doc_entities := es\<rparr>,
                           revision_nodes = R, gcs_prefix = g, next' = None,
                           last' = Some cur, revision_id = Some (rev_id r0), history = h\<rparr>)"
    by blast
  define nd where "nd = objs s' (nxt s)"
  have nd: "next' nd = None" "last' nd = Some cur" using o'' by (simp_all add: nd_def)
  have o': "objs s' = (objs s)(cur := (objs s cur)\<lparr>next' := Some (nxt s)\<rparr>, nxt s := nd)"
    using o'' by (simp add: nd_def)
  have lt: "c < nxt s'" using c n' by simp
  have "next' (objs s' c) = None" "last' (objs s' c) = Some cur" using o' c nd by simp_all
  with Cons.IH [OF rest lt]
  have ih: "linked t (Some cur) (nxt s # [nxt s' ..< nxt s' + length rs])" using c by simp
  have cur_s': "objs s' cur = (objs s cur)\<lparr>next' := Some (nxt s)\<rparr>"
    using o' ne by simp
  have "objs t cur = objs s' cur"
    using revs_loop_frame [OF rest lt] Cons.prems(2) c n' ne by simp
  then have "last' (objs t cur) = last' (objs s cur)" "next' (objs t cur) = Some (nxt s)"
    using cur_s' by simp_all
  moreover have "[nxt s ..< nxt s + length (r # rs)] = nxt s # [nxt s' ..< nxt s' + length rs]"
    using n' by (simp add: upt_rec)
  ultimately show ?case using ih by simp
qed

lemma revs_loop_contents:
  "revs_loop D R g revs cur s = Inr (a, t) \<Longrightarrow> cur < nxt s \<Longrightarrow> k < length revs \<Longrightarrow>
     \<exists>es h r0 rest.
        modify_docproto (entities (revs ! k)) = Inr (es, h) \<and> revisions (revs ! k) = r0 # rest
        \<and> document (objs t (nxt s + k)) =
            (Document_init (shards D) (doc_gcs_prefix D))\<lparr>doc_entities := es\<rparr>
        \<and> history (objs t (nxt s + k)) = h
        \<and> revision_id (objs t (nxt s + k)) = Some (rev_id r0)"
proof (induction revs arbitrary: cur s k)
  case Nil
  then show ?case by simp
next
  case (Cons r rs)
  from Cons.prems(1) obtain c s' where body: "revs_body D R g r cur s = Inr (c, s')"
    and rest: "revs_loop D R g rs c s' = Inr (a, t)"
    by (auto split: sum.splits)
  from Cons.prems(2) have ne: "cur \<noteq> nxt s" by simp
  from revs_body_Inr [OF body ne] obtain es h r0 rest' where
    m: "modify_docproto (entities r) = Inr (es, h)" and rv: "revisions r = r0 # rest'"
    and c: "c = nxt s" and n': "nxt s' = Suc (nxt s)"
    and o': "objs s' = (objs s)
               (cur := (objs s cur)\<lparr>next' := Some (nxt s)\<rparr>,
                nxt s := \<lparr>document = (Document_init (shards D) (doc_gcs_prefix D))\<lparr>doc_entities := es\<rparr>,
                           revision_nodes = R, gcs_prefix = g, next' = None,
                           last' = Some cur, revision_id = Some (rev_id r0), history = h\<rparr>)"
    by blast
  have lt: "c < nxt s'" using c n' by simp
  show ?case
  proof (cases k)
    case 0
    from revs_loop_frame [OF rest lt]
    obtain nx where "objs t c = (objs s' c)\<lparr>next' := nx\<rparr>" by blast
    then have "document (objs t c) = document (objs s' c)"
      "history (objs t c) = history (objs s' c)"
      "revision_id (objs t c) = revision_id (objs s' c)"
      by simp_all
    with 0 m rv c o' show ?thesis by simp
  next
    case (Suc k')
    with Cons.prems(3) have "k' < length rs" by simp
    from Cons.IH [OF rest lt this] Suc n' show ?thesis by simp
  qed
qed

lemma revs_loop_error:
  "map_sum fst (\<lambda>_. ()) (revs_loop D R g revs c1 s1) =
   map_sum fst (\<lambda>_. ()) (revs_loop D R g revs c2 s2)"
proof (induction revs arbitrary: c1 s1 c2 s2)
  case Nil
  then show ?case by simp
next
  case (Cons r rs)
  show ?case
  proof (cases "revs_body D R g r c1 s1")
    case (Inl x)
    with revs_body_error [of D R g r c1 s1 c2 s2] show ?thesis
      by (cases "revs_body D R g r c2 s2") auto
  next
    case (Inr y)
    with revs_body_error [of D R g r c1 s1 c2 s2] obtain y' where
      "revs_body D R g r c2 s2 = Inr y'"
      by (cases "revs_body D R g r c2 s2") auto
    with Inr Cons.IH show ?thesis by (cases y, cases y') simp
  qed
qed

lemma from_gcs_unfold:
  "from_gcs_prefix_with_revisions g base revs s =
     revs_loop (Document_init base g) (map revisions revs) g revs (nxt s)
       (s\<lparr>objs := (objs s)
             (nxt s := DocumentWithRevisions_init (Document_init base g) (map revisions revs) g),
          nxt := Suc (nxt s)\<rparr>)"
  by (simp add: from_gcs_prefix_with_revisions_def alloc_def Let_def)

lemma upt_Cons_last: "last (n # [Suc n ..< Suc n + m]) = n + m"
proof -
  have "n # [Suc n ..< Suc n + m] = [n ..< Suc (n + m)]" by (simp add: upt_rec)
  then show ?thesis by simp
qed

lemma build_chain:
  assumes "from_gcs_prefix_with_revisions g base revs s = Inr (a, t)"
  shows "a = nxt s + length revs"
    and "chain t [nxt s ..< Suc (nxt s + length revs)]"
    and "revision_id (objs t (nxt s)) = None"
    and "document (objs t (nxt s)) = Document_init base g"
    and "history (objs t (nxt s)) = []"
proof -
  let ?D = "Document_init base g" and ?R = "map revisions revs"
  let ?s0 = "s\<lparr>objs := (objs s)(nxt s := DocumentWithRevisions_init ?D ?R g),
               nxt := Suc (nxt s)\<rparr>"
  from assms have loop: "revs_loop ?D ?R g revs (nxt s) ?s0 = Inr (a, t)"
    by (simp add: from_gcs_unfold)
  have lt: "nxt s < nxt ?s0" by simp
  have base0: "objs ?s0 (nxt s) = DocumentWithRevisions_init ?D ?R g" by simp
  note frame = revs_loop_frame [OF loop lt]
  have n0: "nxt ?s0 = Suc (nxt s)" by simp
  have "a = last (nxt s # [nxt ?s0 ..< nxt ?s0 + length revs])" using frame by blast
  then show "a = nxt s + length revs" unfolding n0 upt_Cons_last .
  have nx0: "next' (objs ?s0 (nxt s)) = None" and l0: "last' (objs ?s0 (nxt s)) = None"
    by (simp_all add: DocumentWithRevisions_init_def)
  have e: "nxt s # [Suc (nxt s) ..< Suc (nxt s) + length revs]
      = [nxt s ..< Suc (nxt s + length revs)]" by (simp add: upt_rec)
  have "linked t None [nxt s ..< Suc (nxt s + length revs)]"
    using revs_loop_linked [OF loop lt nx0] unfolding l0 n0 e .
  moreover have "[nxt s ..< Suc (nxt s + length revs)] \<noteq> []" by simp
  ultimately show "chain t [nxt s ..< Suc (nxt s + length revs)]"
    unfolding chain_def by (rule conjI [rotated])
  from frame obtain nx where "objs t (nxt s) = (objs ?s0 (nxt s))\<lparr>next' := nx\<rparr>" by blast
  then have eq: "objs t (nxt s) = (DocumentWithRevisions_init ?D ?R g)\<lparr>next' := nx\<rparr>"
    by simp
  show "revision_id (objs t (nxt s)) = None" "document (objs t (nxt s)) = Document_init base g"
    "history (objs t (nxt s)) = []"
    by (simp_all add: eq DocumentWithRevisions_init_def)
qed

lemma build_contents:
  assumes "from_gcs_prefix_with_revisions g base revs s = Inr (a, t)" and "k < length revs"
  shows "\<exists>es h r0 rest.
        modify_docproto (entities (revs ! k)) = Inr (es, h) \<and> revisions (revs ! k) = r0 # rest
        \<and> document (objs t (Suc (nxt s + k))) = (Document_init base g)\<lparr>doc_entities := es\<rparr>
        \<and> history (objs t (Suc (nxt s + k))) = h
        \<and> revision_id (objs t (Suc (nxt s + k))) = Some (rev_id r0)"
proof -
  let ?D = "Document_init base g" and ?R = "map revisions revs"
  let ?s0 = "s\<lparr>objs := (objs s)(nxt s := DocumentWithRevisions_init ?D ?R g),
               nxt := Suc (nxt s)\<rparr>"
  from assms have loop: "revs_loop ?D ?R g revs (nxt s) ?s0 = Inr (a, t)"
    by (simp add: from_gcs_unfold)
  have lt: "nxt s < nxt ?s0" by simp
  have "Document_init (shards ?D) (doc_gcs_prefix ?D) = ?D" by (simp add: Document_init_def)
  with revs_loop_contents [OF loop lt assms(2)] show ?thesis by simp
qed

lemmas build_eval =
  from_gcs_prefix_with_revisions_def revs_body_def get_revised_documents_def modify_docproto_def
  modify_step_def alloc_def upd_def Let_def DocumentWithRevisions_init_def Document_init_def
  Entity_init_def rev_doc_def heap0_def op_defs

lemma demo_build_ex:
  "\<exists>t. from_gcs_prefix_with_revisions ''gs://b/p'' [] demo_revs heap0 = Inr (2, t)"
  by (simp add: demo_revs_def build_eval)

lemma demo_build:
  "from_gcs_prefix_with_revisions ''gs://b/p'' [] demo_revs heap0 = Inr (2, demo_heap)"
  using demo_build_ex by (auto simp: demo_heap_def)

lemma demo_chain: "chain demo_heap [0, 1, 2]"
proof -
  have "nxt heap0 = 0" by (simp add: heap0_def)
  with build_chain(2) [OF demo_build] show ?thesis
    by (simp add: demo_revs_def upt_rec numeral_2_eq_2)
qed

lemma demo_ids:
  "revision_id (objs demo_heap 0) = None"
  "revision_id (objs demo_heap 1) = Some ''r1''"
  "revision_id (objs demo_heap 2) = Some ''r2''"
  by (simp_all add: demo_heap_def demo_revs_def build_eval)

lemma demo_entities:
  "doc_entities (document (objs demo_heap 1)) = [\<lparr>ent_type' = ''A'', ent_mention_text = ''x''\<rparr>]"
  "doc_entities (document (objs demo_heap 2)) = [\<lparr>ent_type' = ''B'', ent_mention_text = ''y''\<rparr>]"
  by (simp_all add: demo_heap_def demo_revs_def build_eval)


subsection \<open>Lookups on the chain of the two example shards\<close>

theorem at_revision_leaves_heap_witness:
  "chain demo_heap [0, 1, 2]
   \<and> lookups demo_heap [(2, Some ''r1''), (1, Some ''missing''), (0, None), (2, Some ''r1'')]
       = Some demo_heap"
  using at_revision_leaves_heap [of demo_heap "[0, 1, 2]"
      "[(2, Some ''r1''), (1, Some ''missing''), (0, None), (2, Some ''r1'')]"] demo_chain
  by simp

text \<open>
  Claim C3, as the code has it: the lookup of an id that no snapshot carries returns a
  string.
\<close>

theorem at_revision_string_counterexample:
  "at_revision demo_heap 2 (Some ''missing'') = Some (Str ''Not Found'', demo_heap)"
  using at_revision_chain [OF demo_chain, of 2 "Some ''missing''"] demo_ids
  by auto

theorem at_revision_not_found_witness:
  "chain demo_heap [0, 1, 2]
   \<and> map (\<lambda>a. revision_id (objs demo_heap a)) [0, 1, 2] = [None, Some ''r1'', Some ''r2'']
   \<and> at_revision demo_heap 0 (Some ''r9'') = Some (Str ''Not Found'', demo_heap)"
  using at_revision_not_found [of demo_heap "[0, 1, 2]" 0 "Some ''r9''"] demo_chain demo_ids
  by simp

text \<open>
  Claim C1, as the code has it: the snapshot of \<open>r2\<close> holds the entity \<open>B\<close> alone,
  whereas folding the operations of \<open>r2\<close> over the entity list of the snapshot of \<open>r1\<close>
  gives \<open>A\<close> and \<open>B\<close>.
\<close>

theorem snapshot_not_cumulative_counterexample:
  "from_gcs_prefix_with_revisions ''gs://b/p'' [] demo_revs heap0 = Inr (2, demo_heap)
   \<and> doc_entities (document (objs demo_heap 1)) = [\<lparr>ent_type' = ''A'', ent_mention_text = ''x''\<rparr>]
   \<and> doc_entities (document (objs demo_heap 2)) = [\<lparr>ent_type' = ''B'', ent_mention_text = ''y''\<rparr>]
   \<and> map_sum fst fst
        (modify_loop (doc_entities (document (objs demo_heap 1)), []) (entities (demo_revs ! 1)))
       = Inr [\<lparr>ent_type' = ''A'', ent_mention_text = ''x''\<rparr>,
              \<lparr>ent_type' = ''B'', ent_mention_text = ''y''\<rparr>]"
  using demo_build demo_entities
  by (simp add: demo_revs_def rev_doc_def modify_step_def op_defs Entity_init_def)

text \<open>
  Claim C1, amended: when the construction returns, the snapshots are a chain in the order
  of the records behind the base snapshot, the snapshot of each record carries the shards
  of the base document, and its entity list and its history are the result of folding the
  record's own operations over the empty lists, whatever the snapshot before it holds.
\<close>

theorem snapshot_replays_record_from_empty:
  assumes "from_gcs_prefix_with_revisions g base revs s = Inr (a, t)" and "k < length revs"
  shows "chain t [nxt s ..< Suc (nxt s + length revs)]
       \<and> a = nxt s + length revs
       \<and> shards (document (objs t (Suc (nxt s + k)))) = base
       \<and> modify_loop ([], []) (entities (revs ! k)) =
           Inr (doc_entities (document (objs t (Suc (nxt s + k)))),
                history (objs t (Suc (nxt s + k))))"
proof -
  from build_contents [OF assms] obtain es h where
    m: "modify_docproto (entities (revs ! k)) = Inr (es, h)"
    and d: "document (objs t (Suc (nxt s + k))) = (Document_init base g)\<lparr>doc_entities := es\<rparr>"
    and hh: "history (objs t (Suc (nxt s + k))) = h"
    by blast
  from m have "modify_loop ([], []) (entities (revs ! k)) = Inr (es, h)"
    by (auto simp: modify_docproto_def split: sum.splits)
  with d hh build_chain(1,2) [OF assms(1)] show ?thesis
    by (simp add: Document_init_def)
qed

theorem snapshot_replays_record_from_empty_witness:
  "from_gcs_prefix_with_revisions ''gs://b/p'' [] demo_revs heap0 = Inr (2, demo_heap)
   \<and> chain demo_heap [0, 1, 2]
   \<and> map_sum fst fst (modify_loop ([], []) (entities (demo_revs ! 1)))
       = Inr (doc_entities (document (objs demo_heap 2)))"
  using snapshot_replays_record_from_empty [OF demo_build, of 1] demo_chain demo_build
  by (simp add: demo_revs_def heap0_def numeral_2_eq_2)

section \<open>Determinism of the construction\<close>

lemma build_views_agree:
  assumes "from_gcs_prefix_with_revisions g base revs s1 = Inr (a1, t1)"
    and "from_gcs_prefix_with_revisions g base revs s2 = Inr (a2, t2)"
    and "k \<le> length revs"
  shows "revision_id (objs t1 (nxt s1 + k)) = revision_id (objs t2 (nxt s2 + k))
       \<and> document (objs t1 (nxt s1 + k)) = document (objs t2 (nxt s2 + k))
       \<and> history (objs t1 (nxt s1 + k)) = history (objs t2 (nxt s2 + k))"
proof (cases k)
  case 0
  with build_chain(3-5) [OF assms(1)] build_chain(3-5) [OF assms(2)] show ?thesis by simp
next
  case (Suc k')
  with assms(3) have k': "k' < length revs" by simp
  from build_contents [OF assms(1) k'] build_contents [OF assms(2) k'] Suc
  show ?thesis by auto
qed

lemma build_error_agree:
  "map_sum fst (\<lambda>_. ()) (from_gcs_prefix_with_revisions g base revs s1) =
   map_sum fst (\<lambda>_. ()) (from_gcs_prefix_with_revisions g base revs s2)"
  unfolding from_gcs_unfold by (rule revs_loop_error)

text \<open>
  Claim C8: two runs of the construction on the same base document and records, from any
  two heaps, either raise the same exception or both return; then the snapshots agree
  position by position in revision id, entity list and history, and a lookup of any id
  from the two returned snapshots finds snapshots with the same entity list and the same
  history, or finds none in both.
\<close>

theorem build_deterministic:
  "(\<exists>e t1 t2. from_gcs_prefix_with_revisions g base revs s1 = Inl (e, t1)
              \<and> from_gcs_prefix_with_revisions g base revs s2 = Inl (e, t2))
   \<or> (\<exists>a1 t1 a2 t2.
         from_gcs_prefix_with_revisions g base revs s1 = Inr (a1, t1)
         \<and> from_gcs_prefix_with_revisions g base revs s2 = Inr (a2, t2)
         \<and> (\<forall>k. k \<le> length revs \<longrightarrow>
               revision_id (objs t1 (nxt s1 + k)) = revision_id (objs t2 (nxt s2 + k))
               \<and> doc_entities (document (objs t1 (nxt s1 + k)))
                   = doc_entities (document (objs t2 (nxt s2 + k)))
               \<and> history (objs t1 (nxt s1 + k)) = history (objs t2 (nxt s2 + k)))
         \<and> (\<forall>x. (\<exists>b1 b2. at_revision t1 a1 x = Some (Ref b1, t1)
                          \<and> at_revision t2 a2 x = Some (Ref b2, t2)
                          \<and> revision_id (objs t1 b1) = x \<and> revision_id (objs t2 b2) = x
                          \<and> doc_entities (document (objs t1 b1))
                              = doc_entities (document (objs t2 b2))
                          \<and> history (objs t1 b1) = history (objs t2 b2))
                 \<or> (at_revision t1 a1 x = Some (Str ''Not Found'', t1)
                     \<and> at_revision t2 a2 x = Some (Str ''Not Found'', t2))))"
proof (cases "from_gcs_prefix_with_revisions g base revs s1")
  case (Inl p)
  obtain e t1 where p: "p = (e, t1)" by (cases p)
  with Inl build_error_agree [of g base revs s1 s2]
  obtain t2 where "from_gcs_prefix_with_revisions g base revs s2 = Inl (e, t2)"
    by (cases "from_gcs_prefix_with_revisions g base revs s2") auto
  with Inl p show ?thesis by blast
next
  case (Inr p)
  obtain a1 t1 where p: "p = (a1, t1)" by (cases p)
  with Inr have r1: "from_gcs_prefix_with_revisions g base revs s1 = Inr (a1, t1)" by simp
  with build_error_agree [of g base revs s1 s2]
  obtain a2 t2 where r2: "from_gcs_prefix_with_revisions g base revs s2 = Inr (a2, t2)"
    by (cases "from_gcs_prefix_with_revisions g base revs s2") auto
  let ?n = "length revs"
  let ?as1 = "[nxt s1 ..< Suc (nxt s1 + ?n)]" and ?as2 = "[nxt s2 ..< Suc (nxt s2 + ?n)]"
  note views = build_views_agree [OF r1 r2]
  have l1: "linked t1 None ?as1" and l2: "linked t2 None ?as2"
    using build_chain(2) [OF r1] build_chain(2) [OF r2] by (simp_all add: chain_def)
  have len: "length ?as1 = length ?as2" by simp
  have nth1: "\<And>k. k \<le> ?n \<Longrightarrow> ?as1 ! k = nxt s1 + k"
    and nth2: "\<And>k. k \<le> ?n \<Longrightarrow> ?as2 ! k = nxt s2 + k"
    by (simp_all add: nth_upt del: upt_Suc)
  have ids: "\<forall>k<length ?as1. revision_id (objs t1 (?as1 ! k)) = revision_id (objs t2 (?as2 ! k))"
  proof (intro allI impI)
    fix k assume "k < length ?as1"
    then have k: "k \<le> ?n" by simp
    with views [OF k] show "revision_id (objs t1 (?as1 ! k)) = revision_id (objs t2 (?as2 ! k))"
      by (simp only: nth1 [OF k] nth2 [OF k])
  qed
  have n: "?n < length ?as1" by simp
  have a1: "a1 = ?as1 ! ?n" and a2: "a2 = ?as2 ! ?n"
    using build_chain(1) [OF r1] build_chain(1) [OF r2] by (simp_all only: nth1 nth2 le_refl)
  have lookup: "(\<exists>b1 b2. at_revision t1 a1 x = Some (Ref b1, t1)
                          \<and> at_revision t2 a2 x = Some (Ref b2, t2)
                          \<and> revision_id (objs t1 b1) = x \<and> revision_id (objs t2 b2) = x
                          \<and> doc_entities (document (objs t1 b1))
                              = doc_entities (document (objs t2 b2))
                          \<and> history (objs t1 b1) = history (objs t2 b2))
                 \<or> (at_revision t1 a1 x = Some (Str ''Not Found'', t1)
                     \<and> at_revision t2 a2 x = Some (Str ''Not Found'', t2))" for x
  proof -
    from at_revision_sim [OF l1 l2 len ids n, of x]
    consider (found) j where "j < length ?as1"
        "at_revision t1 a1 x = Some (Ref (?as1 ! j), t1)"
        "at_revision t2 a2 x = Some (Ref (?as2 ! j), t2)"
        "revision_id (objs t1 (?as1 ! j)) = x"
      | (missing) "at_revision t1 a1 x = Some (Str ''Not Found'', t1)"
        "at_revision t2 a2 x = Some (Str ''Not Found'', t2)"
      unfolding a1 a2 by blast
    then show ?thesis
    proof cases
      case found
      then have j: "j \<le> ?n" by simp
      from views [OF j] found(4)
      have "revision_id (objs t1 (?as1 ! j)) = x" "revision_id (objs t2 (?as2 ! j)) = x"
        "doc_entities (document (objs t1 (?as1 ! j))) = doc_entities (document (objs t2 (?as2 ! j)))"
        "history (objs t1 (?as1 ! j)) = history (objs t2 (?as2 ! j))"
        by (simp_all only: nth1 [OF j] nth2 [OF j])
      with found(2,3) show ?thesis by blast
    next
      case missing
      then show ?thesis by blast
    qed
  qed
  have pos: "\<forall>k. k \<le> length revs \<longrightarrow>
               revision_id (objs t1 (nxt s1 + k)) = revision_id (objs t2 (nxt s2 + k))
               \<and> doc_entities (document (objs t1 (nxt s1 + k)))
                   = doc_entities (document (objs t2 (nxt s2 + k)))
               \<and> history (objs t1 (nxt s1 + k)) = history (objs t2 (nxt s2 + k))"
    using views by simp
  from r1 r2 pos lookup show ?thesis by blast
qed

section \<open>An ADD and a REMOVE in two records\<close>

text \<open>
  Claim C6, as the code has it: with the ADD and the REMOVE in two records, the
  construction raises IndexError at the second record, which is replayed on an empty list.
\<close>

theorem add_then_remove_counterexample:
  "map_sum fst fst
     (from_gcs_prefix_with_revisions ''gs://b/p'' []
        [rev_doc ''r1'' [] [add_op ''K'' ''T''], rev_doc ''r2'' [1] [remove_op ''1'']] heap0)
   = Inl IndexError"
  by (simp add: build_eval pop_eval py_int_eval)

text \<open>
  Claim C6, amended: for every kind and text, a record with the ADD followed by a record
  with the REMOVE of target 1 makes the construction raise IndexError; with both
  operations in one record the construction returns and the record's snapshot has the
  empty entity list.
\<close>

theorem add_then_remove:
  "map_sum fst fst
     (from_gcs_prefix_with_revisions g base
        [rev_doc i1 p1 [add_op K T], rev_doc i2 p2 [remove_op ''1'']] s)
   = Inl IndexError
   \<and> (\<exists>t. from_gcs_prefix_with_revisions g base
             [rev_doc i1 p1 [add_op K T, remove_op ''1'']] s = Inr (Suc (nxt s), t)
          \<and> doc_entities (document (objs t (Suc (nxt s)))) = [])"
proof -
  have two: "map_sum fst fst
     (from_gcs_prefix_with_revisions g base
        [rev_doc i1 p1 [add_op K T], rev_doc i2 p2 [remove_op ''1'']] s)
   = Inl IndexError"
    by (simp add: from_gcs_prefix_with_revisions_def revs_body_def get_revised_documents_def
          modify_docproto_def modify_step_def alloc_def upd_def Let_def rev_doc_def op_defs
          pop_eval py_int_eval DocumentWithRevisions_init_def
          Document_init_def)
  have one: "\<exists>t. from_gcs_prefix_with_revisions g base
             [rev_doc i1 p1 [add_op K T, remove_op ''1'']] s = Inr (Suc (nxt s), t)
          \<and> doc_entities (document (objs t (Suc (nxt s)))) = []"
    by (simp add: from_gcs_prefix_with_revisions_def revs_body_def get_revised_documents_def
          modify_docproto_def modify_step_def alloc_def upd_def Let_def rev_doc_def op_defs
          pop_eval py_int_eval DocumentWithRevisions_init_def
          Document_init_def)
  from two one show ?thesis ..
qed

lemma demo_build5_ex:
  "\<exists>t. from_gcs_prefix_with_revisions ''gs://b/p'' [] demo_revs heap5 = Inr (7, t)"
  by (simp add: demo_revs_def heap5_def build_eval)

theorem build_deterministic_witness:
  "\<exists>t1 t2. from_gcs_prefix_with_revisions ''gs://b/p'' [] demo_revs heap0 = Inr (2, t1)
        \<and> from_gcs_prefix_with_revisions ''gs://b/p'' [] demo_revs heap5 = Inr (7, t2)
        \<and> revision_id (objs t1 2) = revision_id (objs t2 7)
        \<and> doc_entities (document (objs t1 2)) = doc_entities (document (objs t2 7))
        \<and> history (objs t1 2) = history (objs t2 7)"
proof -
  from demo_build_ex obtain u1 where
    u1: "from_gcs_prefix_with_revisions ''gs://b/p'' [] demo_revs heap0 = Inr (2, u1)" ..
  from demo_build5_ex obtain u2 where
    u2: "from_gcs_prefix_with_revisions ''gs://b/p'' [] demo_revs heap5 = Inr (7, u2)" ..
  have n: "nxt heap0 + 2 = 2" "nxt heap5 + 2 = 7" "(2::nat) \<le> length demo_revs"
    by (simp_all add: heap0_def heap5_def demo_revs_def)
  from build_deterministic [of "''gs://b/p''" "[]" demo_revs heap0 heap5] u1 u2
  have "\<forall>k. k \<le> length demo_revs \<longrightarrow>
               revision_id (objs u1 (nxt heap0 + k)) = revision_id (objs u2 (nxt heap5 + k))
               \<and> doc_entities (document (objs u1 (nxt heap0 + k)))
                   = doc_entities (document (objs u2 (nxt heap5 + k)))
               \<and> history (objs u1 (nxt heap0 + k)) = history (objs u2 (nxt heap5 + k))"
    by simp
  from this [rule_format, OF n(3)] u1 u2 show ?thesis
    unfolding n(1,2) by blast
qed

end
